theory Spec2Isabelle
  imports Complex_Main
begin

unbundle bit_operations_syntax

section \<open>Autofocus.py: data model\<close>

text \<open>
  Python integers are unbounded, so steps, counters and bytes are \<^typ>\<open>int\<close>.
  The sharpness returned by \<open>focus_metric\<close> is a float that the loop only ever
  compares (\<open>>\<close> and \<open><\<close>) and stores; it is an input of every tick and is
  modelled as a \<^typ>\<open>real\<close>, on which those comparisons are the same as on
  the finite floats they are applied to.
\<close>

text \<open>The exceptions of the script: the range check of \<open>set_focus\<close> and the
  failure of \<open>subprocess.run(..., check=True)\<close>, which carries the two data
  arguments of the \<open>i2cset\<close> command line that failed.\<close>

datatype exn = ValueError | CalledProcessError int int

text \<open>What the script prints.\<close>

datatype message =
    No_frame
  | I2C_error exn
  | Autofocus_set int
  | Restart_autofocus

text \<open>The observable effects, in the order they happen: a call of
  \<open>set_focus\<close> with its argument, an \<open>i2cset -y 6 0x0c data1 data2\<close>
  process started by \<open>subprocess.run\<close>, and a printed line.\<close>

datatype event = Focus_call int | I2cset int int | Print message

text \<open>How the main loop is left: the \<open>while\<close> condition fails, one of the
  three \<open>break\<close>s, or an exception nobody catches inside
  \<open>autofocus_demo\<close>.\<close>

datatype exit = Window_closed | Frame_lost | I2C_break | Esc | Uncaught exn

text \<open>The tuning variables of \<open>autofocus_demo\<close>.\<close>

record state =
  max_step :: int
  max_metric :: real
  last_metric :: real
  dec_frames :: int
  step :: int
  finished :: bool

text \<open>What the environment answers during one iteration of the loop: the window
  property test, \<open>cap.read()\<close> (its flag, and the sharpness of its frame), whether
  the \<open>i2cset\<close> process of this iteration exits with status 0, and the value
  returned by \<open>cv2.waitKey(16)\<close>.\<close>

record tick_in =
  window_open :: bool
  ret :: bool
  sharp :: real
  i2c_ok :: bool
  key :: int

section \<open>set_focus\<close>

definition focus_value :: "int \<Rightarrow> int" where
  "focus_value stp = push_bit 4 stp AND 0x3FF0"

definition focus_data1 :: "int \<Rightarrow> int" where
  "focus_data1 val = drop_bit 8 val AND 0x3F"

definition focus_data2 :: "int \<Rightarrow> int" where
  "focus_data2 val = val AND 0xF0"

text \<open>\<open>set_focus ok stp\<close> returns the processes it started and the exception it
  raised, if any; \<open>ok\<close> says whether \<open>i2cset\<close> exits with status 0.\<close>

definition set_focus :: "bool \<Rightarrow> int \<Rightarrow> event list \<times> exn option" where
  "set_focus ok stp =
     (if \<not> (0 \<le> stp \<and> stp \<le> 1023) then ([], Some ValueError)
      else
        let val = focus_value stp;
            data1 = focus_data1 val;
            data2 = focus_data2 val
        in ([I2cset data1 data2],
            if ok then None else Some (CalledProcessError data1 data2)))"

section \<open>autofocus_demo: one iteration of the loop\<close>

definition init_state :: state where
  "init_state =
     \<lparr>max_step = 10, max_metric = 0, last_metric = 0, dec_frames = 0,
      step = 10, finished = False\<rparr>"

text \<open>The assignments of the tuning branch, after \<open>set_focus(step)\<close> returned.\<close>

definition tuning :: "state \<Rightarrow> real \<Rightarrow> state" where
  "tuning s shp =
     \<lparr>max_step = (if shp > max_metric s then step s else max_step s),
      max_metric = (if shp > max_metric s then shp else max_metric s),
      last_metric = shp,
      dec_frames = (if shp < last_metric s then dec_frames s + 1 else 0),
      step = step s + 10,
      finished = finished s\<rparr>"

text \<open>The \<open>if ... elif not finished\<close> statement of the loop body.\<close>

definition focus_control :: "state \<Rightarrow> tick_in \<Rightarrow> state \<times> event list \<times> exit option" where
  "focus_control s i =
     (if dec_frames s < 6 \<and> step s < 1020 then
        (case set_focus (i2c_ok i) (step s) of
           (tr, None) \<Rightarrow> (tuning s (sharp i), Focus_call (step s) # tr, None)
         | (tr, Some (CalledProcessError d1 d2)) \<Rightarrow>
             (s, Focus_call (step s) # tr @ [Print (I2C_error (CalledProcessError d1 d2))],
              Some I2C_break)
         | (tr, Some ValueError) \<Rightarrow>
             (s, Focus_call (step s) # tr, Some (Uncaught ValueError)))
      else if \<not> finished s then
        (case set_focus (i2c_ok i) (max_step s) of
           (tr, None) \<Rightarrow>
             (s\<lparr>finished := True\<rparr>,
              Focus_call (max_step s) # tr @ [Print (Autofocus_set (max_step s))], None)
         | (tr, Some e) \<Rightarrow> (s, Focus_call (max_step s) # tr, Some (Uncaught e)))
      else (s, [], None))"

text \<open>The keyboard handling that ends the loop body; \<open>ord('r')\<close> is 114.\<close>

definition keyboard :: "state \<Rightarrow> int \<Rightarrow> state \<times> event list \<times> exit option" where
  "keyboard s k =
     (let ky = k AND 0xFF
      in if ky = 27 then (s, [], Some Esc)
         else if ky = 114 \<or> ky = 10 then (init_state, [Print Restart_autofocus], None)
         else (s, [], None))"

definition tick :: "state \<Rightarrow> tick_in \<Rightarrow> state \<times> event list \<times> exit option" where
  "tick s i =
     (if \<not> window_open i then (s, [], Some Window_closed)
      else if \<not> ret i then (s, [Print No_frame], Some Frame_lost)
      else
        (case focus_control s i of
           (s1, tr, Some x) \<Rightarrow> (s1, tr, Some x)
         | (s1, tr, None) \<Rightarrow>
             (case keyboard s1 (key i) of (s2, tr2, x) \<Rightarrow> (s2, tr @ tr2, x))))"

text \<open>The loop, driven by the answers of the environment, one per iteration; it
  stops at the first iteration that leaves the loop.\<close>

fun run :: "state \<Rightarrow> tick_in list \<Rightarrow> state \<times> event list \<times> exit option" where
  "run s [] = (s, [], None)"
| "run s (i # rest) =
     (case tick s i of
        (s1, tr, Some x) \<Rightarrow> (s1, tr, Some x)
      | (s1, tr, None) \<Rightarrow> (case run s1 rest of (s2, tr2, x) \<Rightarrow> (s2, tr @ tr2, x)))"

fun final :: "state \<times> event list \<times> exit option \<Rightarrow> state" where
  "final (s, tr, x) = s"

fun trace :: "state \<times> event list \<times> exit option \<Rightarrow> event list" where
  "trace (s, tr, x) = tr"

fun stopped :: "state \<times> event list \<times> exit option \<Rightarrow> exit option" where
  "stopped (s, tr, x) = x"

text \<open>An iteration in which the window is open, a frame of sharpness \<open>shp\<close>
  arrives, \<open>i2cset\<close> succeeds and no key is pressed (\<open>waitKey\<close> returns -1).\<close>

definition sample :: "real \<Rightarrow> tick_in" where
  "sample shp = \<lparr>window_open = True, ret = True, sharp = shp, i2c_ok = True, key = - 1\<rparr>"

section \<open>Predicates on states and traces\<close>

text \<open>The bounds that the loop keeps on its counters.\<close>

definition loop_inv :: "state \<Rightarrow> bool" where
  "loop_inv s =
     (step s mod 10 = 0 \<and> max_step s mod 10 = 0 \<and>
      10 \<le> max_step s \<and> max_step s \<le> step s \<and> step s \<le> 1020 \<and> max_step s \<le> 1010 \<and>
      0 \<le> dec_frames s \<and> dec_frames s \<le> 6)"





text \<open>The part of a trace that follows the last restart.\<close>

fun session_event :: "event list \<Rightarrow> event \<Rightarrow> event list" where
  "session_event acc (Print Restart_autofocus) = []"
| "session_event acc e = acc @ [e]"




section \<open>The actuator driver\<close>

lemma set_focus_in_range:
  "0 \<le> stp \<Longrightarrow> stp \<le> 1023 \<Longrightarrow>
   set_focus ok stp =
     ([I2cset (focus_data1 (focus_value stp)) (focus_data2 (focus_value stp))],
      if ok then None
      else Some (CalledProcessError (focus_data1 (focus_value stp)) (focus_data2 (focus_value stp))))"
  by (simp add: set_focus_def Let_def)

lemma set_focus_out_of_range:
  "stp < 0 \<or> 1023 < stp \<Longrightarrow> set_focus ok stp = ([], Some ValueError)"
  by (auto simp add: set_focus_def)

lemma mask_0x3FF0: "(0x3FF0::int) = push_bit 4 (mask 10)"
  by (simp add: mask_eq_exp_minus_1)

lemma mask_0x3F: "(0x3F::int) = mask 6"
  by (simp add: mask_eq_exp_minus_1)

lemma mask_0xF0: "(0xF0::int) = push_bit 4 (mask 4)"
  by (simp add: mask_eq_exp_minus_1)

lemma decode_encode:
  assumes "0 \<le> stp" and "stp \<le> 1023"
  shows "push_bit 4 (focus_data1 (focus_value stp)) OR drop_bit 4 (focus_data2 (focus_value stp)) = stp"
proof -
  have low: "take_bit 10 stp = stp"
    using assms by (simp add: take_bit_int_eq_self)
  have "push_bit 4 (focus_data1 (focus_value stp)) OR drop_bit 4 (focus_data2 (focus_value stp))
        = take_bit 10 stp"
    unfolding focus_value_def focus_data1_def focus_data2_def mask_0x3FF0 mask_0x3F mask_0xF0
    by (rule bit_eqI) (auto simp add: bit_simps)
  with low show ?thesis by simp
qed

text \<open>
  C5. For every integer \<open>s\<close>, \<open>set_focus(s)\<close> raises the range error exactly when
  \<open>s < 0\<close> or \<open>s > 1023\<close>, and a call that raises it has started no \<open>i2cset\<close>
  process: the check comes before the transport is touched.
\<close>

theorem set_focus_range_error:
  "(snd (set_focus ok s) = Some ValueError) = (s < 0 \<or> 1023 < s) \<and>
   (s < 0 \<or> 1023 < s \<longrightarrow> fst (set_focus ok s) = [])"
  by (auto simp add: set_focus_def Let_def)

theorem set_focus_range_error_witness:
  "((1024::int) < 0 \<or> (1023::int) < 1024) \<and>
   snd (set_focus True 1024) = Some ValueError \<and> fst (set_focus True 1024) = [] \<and>
   snd (set_focus True (- 1)) = Some ValueError \<and>
   snd (set_focus False 1023) \<noteq> Some ValueError"
  using set_focus_range_error [of True 1024] set_focus_range_error [of True "- 1"]
    set_focus_range_error [of False 1023]
  by simp

text \<open>
  C6, as the code has it. The bytes handed to \<open>i2cset\<close> are
  \<open>data1 = (value >> 8) & 0x3F\<close> and \<open>data2 = value & 0xF0\<close> of
  \<open>value = (step << 4) & 0x3FF0\<close>. Step 0 writes (0, 0); step 63 has value 1008 and
  writes (3, 240); step 1023 writes (63, 240); and whatever the value, data1 is at most
  63 and data2 at most 240, so each fits in one byte.
\<close>

theorem focus_encoding:
  "fst (set_focus ok s) =
     (if 0 \<le> s \<and> s \<le> 1023
      then [I2cset (drop_bit 8 (push_bit 4 s AND 0x3FF0) AND 0x3F) ((push_bit 4 s AND 0x3FF0) AND 0xF0)]
      else []) \<and>
   fst (set_focus ok 0) = [I2cset 0 0] \<and>
   focus_value 63 = 1008 \<and> fst (set_focus ok 63) = [I2cset 3 240] \<and>
   focus_value 1023 = 16368 \<and> fst (set_focus ok 1023) = [I2cset 63 240] \<and>
   0 \<le> focus_data1 v \<and> focus_data1 v \<le> 63 \<and> 0 \<le> focus_data2 v \<and> focus_data2 v \<le> 240"
  by (simp add: set_focus_def Let_def focus_value_def focus_data1_def focus_data2_def)

text \<open>
  C6, as the claim words it, fails at step 63: the low byte is 240 (the low nibble of 63
  is 15), not 48.
\<close>

theorem focus_encoding_step_63_counterexample:
  "fst (set_focus True 63) = [I2cset 3 240] \<and> focus_data2 (focus_value 63) \<noteq> 48"
  by (simp add: set_focus_def focus_value_def focus_data1_def focus_data2_def)

text \<open>
  C9. On the valid range the two bytes determine the step: for every step in [0, 1023]
  the bytes written by \<open>set_focus\<close> give the step back as
  \<open>(data1 << 4) | (data2 >> 4)\<close>, so two valid steps that write the same bytes are
  equal.
\<close>

theorem focus_encoding_roundtrip:
  "(0 \<le> s \<and> s \<le> 1023 \<longrightarrow>
      (\<exists>d1 d2. fst (set_focus ok s) = [I2cset d1 d2] \<and> push_bit 4 d1 OR drop_bit 4 d2 = s)) \<and>
   (0 \<le> s \<and> s \<le> 1023 \<and> 0 \<le> s' \<and> s' \<le> 1023 \<and>
      fst (set_focus ok s) = fst (set_focus ok' s') \<longrightarrow> s = s')"
proof (intro conjI impI)
  assume "0 \<le> s \<and> s \<le> 1023"
  then show "\<exists>d1 d2. fst (set_focus ok s) = [I2cset d1 d2] \<and> push_bit 4 d1 OR drop_bit 4 d2 = s"
    by (simp add: set_focus_in_range decode_encode)
next
  assume h: "0 \<le> s \<and> s \<le> 1023 \<and> 0 \<le> s' \<and> s' \<le> 1023 \<and>
      fst (set_focus ok s) = fst (set_focus ok' s')"
  then have "focus_data1 (focus_value s) = focus_data1 (focus_value s')"
    and "focus_data2 (focus_value s) = focus_data2 (focus_value s')"
    using h by (simp_all add: set_focus_in_range)
  then have "push_bit 4 (focus_data1 (focus_value s)) OR drop_bit 4 (focus_data2 (focus_value s))
      = push_bit 4 (focus_data1 (focus_value s')) OR drop_bit 4 (focus_data2 (focus_value s'))"
    by simp
  with h show "s = s'"
    by (simp add: decode_encode)
qed

theorem focus_encoding_roundtrip_witness:
  "(0::int) \<le> 677 \<and> (677::int) \<le> 1023 \<and>
   fst (set_focus True 677) = [I2cset 42 80] \<and> push_bit 4 42 OR drop_bit 4 80 = (677::int)"
  using focus_encoding_roundtrip [of 677 True 677 True]
  by (simp add: set_focus_def focus_value_def focus_data1_def focus_data2_def)

section \<open>The loop body on one input\<close>

lemma keyboard_no_key: "keyboard s (- 1) = (s, [], None)"
  by (simp add: keyboard_def)

lemma tick_sample_tuning:
  "dec_frames s < 6 \<Longrightarrow> step s < 1020 \<Longrightarrow> 0 \<le> step s \<Longrightarrow>
   tick s (sample x) =
     (tuning s x,
      [Focus_call (step s), I2cset (focus_data1 (focus_value (step s))) (focus_data2 (focus_value (step s)))],
      None)"
  by (simp add: tick_def focus_control_def sample_def set_focus_in_range keyboard_no_key)

lemma tick_sample_commit:
  "\<not> (dec_frames s < 6 \<and> step s < 1020) \<Longrightarrow> \<not> finished s \<Longrightarrow> 0 \<le> max_step s \<Longrightarrow> max_step s \<le> 1023 \<Longrightarrow>
   tick s (sample x) =
     (s\<lparr>finished := True\<rparr>,
      [Focus_call (max_step s), I2cset (focus_data1 (focus_value (max_step s))) (focus_data2 (focus_value (max_step s))),
       Print (Autofocus_set (max_step s))],
      None)"
  by (auto simp add: tick_def focus_control_def sample_def set_focus_in_range keyboard_no_key)

lemma tick_sample_idle:
  "\<not> (dec_frames s < 6 \<and> step s < 1020) \<Longrightarrow> finished s \<Longrightarrow> tick s (sample x) = (s, [], None)"
  by (auto simp add: tick_def focus_control_def sample_def keyboard_no_key)

lemma run_append:
  "run s (xs @ ys) =
     (case run s xs of
        (s1, tr, Some x) \<Rightarrow> (s1, tr, Some x)
      | (s1, tr, None) \<Rightarrow> (case run s1 ys of (s2, tr2, x) \<Rightarrow> (s2, tr @ tr2, x)))"
  by (induction xs arbitrary: s) (auto split: prod.splits option.splits)

lemmas evals = tick_def focus_control_def sample_def set_focus_def keyboard_def tuning_def init_state_def
   Let_def focus_value_def focus_data1_def focus_data2_def

section \<open>The loop invariant\<close>

lemma loop_inv_init: "loop_inv init_state"
  by (simp add: loop_inv_def init_state_def)

lemma sweep_bound: "(x::int) mod 10 = 0 \<Longrightarrow> x < 1020 \<Longrightarrow> x \<le> 1010"
  by presburger

lemma loop_inv_tuning:
  "loop_inv s \<Longrightarrow> dec_frames s < 6 \<Longrightarrow> step s < 1020 \<Longrightarrow> loop_inv (tuning s x)"
  using sweep_bound [of "step s"]
  by (auto simp add: loop_inv_def tuning_def)

lemma focus_control_inv:
  "loop_inv s \<Longrightarrow> loop_inv (final (focus_control s i))"
  by (auto simp add: focus_control_def loop_inv_tuning split: prod.splits option.splits exn.splits)
     (simp_all add: loop_inv_def)

lemma keyboard_inv:
  "loop_inv s \<Longrightarrow> loop_inv (final (keyboard s k))"
  by (simp add: keyboard_def Let_def loop_inv_init)

lemma tick_inv:
  "loop_inv s \<Longrightarrow> loop_inv (final (tick s i))"
  using focus_control_inv [of s i] keyboard_inv [of "final (focus_control s i)" "key i"]
  by (auto simp add: tick_def split: prod.splits option.splits)

lemma run_inv:
  "loop_inv s \<Longrightarrow> loop_inv (final (run s is))"
proof (induction "is" arbitrary: s)
  case Nil
  then show ?case by simp
next
  case (Cons i rest)
  from Cons.prems have a: "loop_inv (final (tick s i))" by (rule tick_inv)
  show ?case
  proof (cases "tick s i")
    case (fields s1 tr x)
    with a have b: "loop_inv s1" by simp
    show ?thesis
    proof (cases x)
      case None
      with fields Cons.IH [OF b] show ?thesis by (auto split: prod.splits)
    next
      case (Some e)
      with fields b show ?thesis by simp
    qed
  qed
qed

lemma focus_control_calls:
  "loop_inv s \<Longrightarrow> Focus_call k \<in> set (trace (focus_control s i)) \<Longrightarrow> 10 \<le> k \<and> k \<le> 1010"
  using sweep_bound [of "step s"]
  by (auto simp add: focus_control_def loop_inv_def set_focus_def Let_def split: if_splits prod.splits option.splits exn.splits)

lemma focus_control_no_ValueError:
  "loop_inv s \<Longrightarrow> stopped (focus_control s i) \<noteq> Some (Uncaught ValueError)"
  by (auto simp add: focus_control_def loop_inv_def set_focus_def Let_def split: if_splits prod.splits option.splits exn.splits)

lemma tick_calls:
  "loop_inv s \<Longrightarrow> Focus_call k \<in> set (trace (tick s i)) \<Longrightarrow> 10 \<le> k \<and> k \<le> 1010"
  using focus_control_calls [of s k i]
  by (auto simp add: tick_def keyboard_def Let_def split: if_splits prod.splits option.splits)

lemma tick_no_ValueError:
  "loop_inv s \<Longrightarrow> stopped (tick s i) \<noteq> Some (Uncaught ValueError)"
  using focus_control_no_ValueError [of s i]
  by (auto simp add: tick_def keyboard_def Let_def split: if_splits prod.splits option.splits)

lemma run_calls:
  "loop_inv s \<Longrightarrow> Focus_call k \<in> set (trace (run s is)) \<Longrightarrow> 10 \<le> k \<and> k \<le> 1010"
proof (induction "is" arbitrary: s)
  case Nil
  then show ?case by simp
next
  case (Cons i rest)
  obtain s1 tr x where t: "tick s i = (s1, tr, x)" by (cases "tick s i")
  from Cons.prems(1) have "loop_inv (final (tick s i))" by (rule tick_inv)
  with t have inv1: "loop_inv s1" by simp
  have here: "Focus_call k \<in> set tr \<Longrightarrow> 10 \<le> k \<and> k \<le> 1010"
    using tick_calls [OF Cons.prems(1), of k i] t by simp
  show ?case
  proof (cases x)
    case (Some e)
    with t Cons.prems(2) here show ?thesis by simp
  next
    case None
    obtain s2 tr2 x2 where r: "run s1 rest = (s2, tr2, x2)" by (cases "run s1 rest")
    with t None Cons.prems(2) have "Focus_call k \<in> set tr \<or> Focus_call k \<in> set (trace (run s1 rest))"
      by auto
    with here Cons.IH [OF inv1] show ?thesis by blast
  qed
qed

lemma run_no_ValueError:
  "loop_inv s \<Longrightarrow> stopped (run s is) \<noteq> Some (Uncaught ValueError)"
proof (induction "is" arbitrary: s)
  case Nil
  then show ?case by simp
next
  case (Cons i rest)
  obtain s1 tr x where t: "tick s i = (s1, tr, x)" by (cases "tick s i")
  from Cons.prems have "loop_inv (final (tick s i))" by (rule tick_inv)
  with t have inv1: "loop_inv s1" by simp
  from tick_no_ValueError [OF Cons.prems, of i] t have nv: "x \<noteq> Some (Uncaught ValueError)" by simp
  show ?case
  proof (cases x)
    case (Some e)
    with t nv show ?thesis by simp
  next
    case None
    with t Cons.IH [OF inv1] show ?thesis by (auto split: prod.splits)
  qed
qed

section \<open>After the commit\<close>





lemma tick_converged:
  assumes "finished s" and "\<not> (dec_frames s < 6 \<and> step s < 1020)"
    and "key i AND 0xFF \<noteq> 114" and "key i AND 0xFF \<noteq> 10"
  shows "final (tick s i) = s \<and> (\<forall>e\<in>set (trace (tick s i)). e = Print No_frame)"
  using assms
  by (auto simp add: tick_def focus_control_def keyboard_def Let_def)

lemma run_converged:
  assumes "finished s" and "\<not> (dec_frames s < 6 \<and> step s < 1020)"
    and "\<forall>j\<in>set js. key j AND 0xFF \<noteq> 114 \<and> key j AND 0xFF \<noteq> 10"
  shows "final (run s js) = s \<and> (\<forall>e\<in>set (trace (run s js)). e = Print No_frame)"
  using assms(3)
proof (induction js)
  case Nil
  then show ?case by simp
next
  case (Cons j rest)
  obtain s1 tr x where t: "tick s j = (s1, tr, x)" by (cases "tick s j")
  from Cons.prems have k: "key j AND 0xFF \<noteq> 114" "key j AND 0xFF \<noteq> 10" by simp_all
  from tick_converged [OF assms(1,2) k] t
  have one: "s1 = s" "\<forall>e\<in>set tr. e = Print No_frame" by simp_all
  from Cons have ih: "final (run s rest) = s \<and> (\<forall>e\<in>set (trace (run s rest)). e = Print No_frame)"
    by simp
  show ?case
  proof (cases x)
    case (Some e)
    with t one show ?thesis by simp
  next
    case None
    obtain s2 tr2 x2 where r: "run s rest = (s2, tr2, x2)" by (cases "run s rest")
    with ih have "s2 = s" "\<forall>e\<in>set tr2. e = Print No_frame" by simp_all
    with t one None r show ?thesis by auto
  qed
qed


section \<open>Runs over frames that arrive without incident\<close>

lemma sample_key: "key (sample x) AND 0xFF \<noteq> 114 \<and> key (sample x) AND 0xFF \<noteq> 10"
  by (simp add: sample_def)

lemma run_snoc:
  "stopped (run s xs) = None \<Longrightarrow>
   run s (xs @ [i]) =
     (final (tick (final (run s xs)) i),
      trace (run s xs) @ trace (tick (final (run s xs)) i),
      stopped (tick (final (run s xs)) i))"
  by (cases "run s xs"; cases "tick (final (run s xs)) i") (auto simp add: run_append split: option.splits)

lemma tick_sample_continues:
  "loop_inv s \<Longrightarrow> stopped (tick s (sample x)) = None"
proof -
  assume a: "loop_inv s"
  then have r: "0 \<le> step s" "0 \<le> max_step s" "max_step s \<le> 1023"
    by (simp_all add: loop_inv_def)
  consider "dec_frames s < 6 \<and> step s < 1020"
    | "\<not> (dec_frames s < 6 \<and> step s < 1020)" "\<not> finished s"
    | "\<not> (dec_frames s < 6 \<and> step s < 1020)" "finished s"
    by blast
  then show ?thesis
  proof cases
    case 1
    with r show ?thesis by (simp add: tick_sample_tuning)
  next
    case 2
    with r show ?thesis by (simp add: tick_sample_commit)
  next
    case 3
    then show ?thesis by (simp add: tick_sample_idle)
  qed
qed

lemma run_samples_continue:
  "loop_inv s \<Longrightarrow> stopped (run s (map sample xs)) = None"
proof (induction xs arbitrary: s)
  case Nil
  then show ?case by simp
next
  case (Cons x rest)
  obtain s1 tr e where t: "tick s (sample x) = (s1, tr, e)" by (cases "tick s (sample x)")
  with tick_sample_continues [OF Cons.prems, of x] have e: "e = None" by simp
  from tick_inv [OF Cons.prems, of "sample x"] t have "loop_inv s1" by simp
  from Cons.IH [OF this] t e show ?case by (auto split: prod.splits)
qed

lemma run_samples_snoc:
  "loop_inv s \<Longrightarrow>
   final (run s (map sample (xs @ [x]))) = final (tick (final (run s (map sample xs))) (sample x))"
  using run_snoc [OF run_samples_continue, of s xs "sample x"] by simp

lemma run_samples_stalled:
  assumes "\<not> (dec_frames s < 6 \<and> step s < 1020)" and "\<not> finished s"
    and "0 \<le> max_step s" and "max_step s \<le> 1023"
  shows "final (run s (map sample (y # ys))) = s\<lparr>finished := True\<rparr>"
proof -
  have t: "tick s (sample y) = (s\<lparr>finished := True\<rparr>,
      [Focus_call (max_step s), I2cset (focus_data1 (focus_value (max_step s))) (focus_data2 (focus_value (max_step s))),
       Print (Autofocus_set (max_step s))], None)"
    using assms by (rule tick_sample_commit)
  have "final (run (s\<lparr>finished := True\<rparr>) (map sample ys)) = s\<lparr>finished := True\<rparr>"
    using run_converged [of "s\<lparr>finished := True\<rparr>" "map sample ys"] assms(1) sample_key
    by auto
  with t show ?thesis by (auto split: prod.splits)
qed

lemma constant_sweep:
  "n \<le> 101 \<Longrightarrow>
   final (run init_state (replicate n (sample c))) =
     \<lparr>max_step = 10, max_metric = (if n = 0 then 0 else max c 0),
      last_metric = (if n = 0 then 0 else c),
      dec_frames = (if n = 1 \<and> c < 0 then 1 else 0),
      step = 10 + 10 * int n, finished = False\<rparr>"
proof (induction n)
  case 0
  then show ?case by (simp add: init_state_def)
next
  case (Suc n)
  let ?s = "final (run init_state (replicate n (sample c)))"
  from Suc have ih: "?s =
     \<lparr>max_step = 10, max_metric = (if n = 0 then 0 else max c 0),
      last_metric = (if n = 0 then 0 else c),
      dec_frames = (if n = 1 \<and> c < 0 then 1 else 0),
      step = 10 + 10 * int n, finished = False\<rparr>"
    by simp
  have g: "dec_frames ?s < 6" "step ?s < 1020" "0 \<le> step ?s"
    using Suc.prems by (simp_all add: ih)
  have "replicate (Suc n) (sample c) = map sample (replicate n c @ [c])"
    by (simp add: replicate_append_same)
  then have "final (run init_state (replicate (Suc n) (sample c))) = final (tick ?s (sample c))"
    using run_samples_snoc [OF loop_inv_init, of "replicate n c" c] by simp
  also have "\<dots> = tuning ?s c"
    using g by (simp add: tick_sample_tuning)
  also have "\<dots> =
     \<lparr>max_step = 10, max_metric = (if Suc n = 0 then 0 else max c 0),
      last_metric = (if Suc n = 0 then 0 else c),
      dec_frames = (if Suc n = 1 \<and> c < 0 then 1 else 0),
      step = 10 + 10 * int (Suc n), finished = False\<rparr>"
    unfolding ih by (auto simp add: tuning_def max_def)
  finally show ?case .
qed

lemma constant_sweep_finished:
  "finished (final (run init_state (replicate n (sample c)))) = (102 \<le> n) \<and>
   step (final (run init_state (replicate n (sample c)))) = min (10 + 10 * int n) 1020 \<and>
   max_step (final (run init_state (replicate n (sample c)))) = 10"
proof (cases "n \<le> 101")
  case True
  from constant_sweep [OF True, of c] True show ?thesis by simp
next
  case False
  let ?s = "final (run init_state (replicate 101 (sample c)))"
  from constant_sweep [OF order_refl, of c]
  have a: "step ?s = 1020" "max_step ?s = 10" "\<not> finished ?s" by simp_all
  from False have "replicate n (sample c) =
      replicate 101 (sample c) @ map sample (c # replicate (n - 102) c)"
    by (simp add: replicate_add [symmetric] flip: replicate_Suc)
  moreover have "stopped (run init_state (replicate 101 (sample c))) = None"
    using run_samples_continue [OF loop_inv_init, of "replicate 101 c"] by simp
  ultimately have "final (run init_state (replicate n (sample c))) =
      final (run ?s (map sample (c # replicate (n - 102) c)))"
    by (cases "run init_state (replicate 101 (sample c))";
        cases "run ?s (map sample (c # replicate (n - 102) c))")
       (simp add: run_append del: run.simps list.map replicate.simps map_replicate)
  also have "\<dots> = ?s\<lparr>finished := True\<rparr>"
    using a by (intro run_samples_stalled) simp_all
  finally show ?thesis using a False by simp
qed

lemma decline_sweep:
  "sorted_wrt (>) xs \<Longrightarrow> \<forall>x\<in>set xs. 0 \<le> x \<Longrightarrow> xs \<noteq> [] \<Longrightarrow> length xs \<le> 7 \<Longrightarrow>
   final (run init_state (map sample xs)) =
     \<lparr>max_step = 10, max_metric = hd xs, last_metric = last xs,
      dec_frames = int (length xs) - 1, step = 10 + 10 * int (length xs), finished = False\<rparr>"
proof (induction xs rule: rev_induct)
  case Nil
  then show ?case by simp
next
  case (snoc x ys)
  let ?s = "final (run init_state (map sample ys))"
  have fin: "final (run init_state (map sample (ys @ [x]))) = final (tick ?s (sample x))"
    by (rule run_samples_snoc [OF loop_inv_init])
  show ?case
  proof (cases "ys = []")
    case True
    with snoc.prems(2) show ?thesis
      by (simp add: evals)
  next
    case False
    from snoc.prems have "sorted_wrt (>) ys" "\<forall>y\<in>set ys. 0 \<le> y" "length ys \<le> 7"
      by (simp_all add: sorted_wrt_append)
    from snoc.IH [OF this(1,2) False this(3)]
    have ih: "?s = \<lparr>max_step = 10, max_metric = hd ys, last_metric = last ys,
      dec_frames = int (length ys) - 1, step = 10 + 10 * int (length ys), finished = False\<rparr>" .
    from snoc.prems(1) have below: "\<forall>y\<in>set ys. x < y"
      by (auto simp add: sorted_wrt_append)
    with False have lt: "x < hd ys" "x < last ys" by simp_all
    from snoc.prems(4) have g: "dec_frames ?s < 6" "step ?s < 1020" "0 \<le> step ?s"
      by (simp_all add: ih)
    from g have "final (tick ?s (sample x)) = tuning ?s x"
      by (simp add: tick_sample_tuning)
    also have "\<dots> = \<lparr>max_step = 10, max_metric = hd (ys @ [x]), last_metric = last (ys @ [x]),
      dec_frames = int (length (ys @ [x])) - 1, step = 10 + 10 * int (length (ys @ [x])),
      finished = False\<rparr>"
      unfolding ih using lt False by (simp add: tuning_def)
    finally show ?thesis using fin by simp
  qed
qed

lemma decline_converges:
  assumes "sorted_wrt (>) xs" and "\<forall>x\<in>set xs. 0 \<le> x" and "8 \<le> length xs" and "k \<le> length xs"
  shows "finished (final (run init_state (map sample (take k xs)))) = (8 \<le> k) \<and>
         max_step (final (run init_state (map sample (take k xs)))) = 10 \<and>
         (k < 7 \<longrightarrow> dec_frames (final (run init_state (map sample (take k xs)))) < 6) \<and>
         (7 \<le> k \<longrightarrow> dec_frames (final (run init_state (map sample (take k xs)))) = 6)"
proof -
  have sorted: "sorted_wrt (>) (take j xs)" for j
    using assms(1) by (rule sorted_wrt_take)
  have nonneg: "\<forall>x\<in>set (take j xs). 0 \<le> x" for j
    using assms(2) by (meson in_set_takeD)
  consider "k = 0" | "1 \<le> k" "k \<le> 7" | "8 \<le> k" by linarith
  then show ?thesis
  proof cases
    case 1
    then show ?thesis by (simp add: init_state_def)
  next
    case 2
    with assms(3,4) have "take k xs \<noteq> []" "length (take k xs) = k" by auto
    with decline_sweep [OF sorted nonneg, of k] 2
    have e: "final (run init_state (map sample (take k xs))) =
       \<lparr>max_step = 10, max_metric = hd (take k xs), last_metric = last (take k xs),
        dec_frames = int k - 1, step = 10 + 10 * int k, finished = False\<rparr>"
      by simp
    show ?thesis unfolding e using 2 by auto
  next
    case 3
    let ?s = "final (run init_state (map sample (take 7 xs)))"
    from assms(3) have l7: "take 7 xs \<noteq> []" "length (take 7 xs) = 7" by auto
    from decline_sweep [OF sorted nonneg l7(1)] l7(2)
    have s7: "?s = \<lparr>max_step = 10, max_metric = hd (take 7 xs), last_metric = last (take 7 xs),
      dec_frames = 6, step = 80, finished = False\<rparr>" by simp
    from 3 assms(4) have "drop 7 (take k xs) \<noteq> []" by simp
    then obtain y ys where d: "drop 7 (take k xs) = y # ys" by (cases "drop 7 (take k xs)") auto
    from 3 have "take k xs = take 7 xs @ drop 7 (take k xs)"
      using append_take_drop_id [of 7 "take k xs"] by (simp add: min_def)
    with d have split: "map sample (take k xs) = map sample (take 7 xs) @ map sample (y # ys)"
      by (metis map_append)
    have "stopped (run init_state (map sample (take 7 xs))) = None"
      by (rule run_samples_continue [OF loop_inv_init])
    then have "final (run init_state (map sample (take k xs))) = final (run ?s (map sample (y # ys)))"
      unfolding split
      by (cases "run init_state (map sample (take 7 xs))"; cases "run ?s (map sample (y # ys))")
         (simp add: run_append del: run.simps list.map)
    also have "\<dots> = ?s\<lparr>finished := True\<rparr>"
      by (rule run_samples_stalled) (simp_all add: s7)
    finally show ?thesis using 3 by (simp add: s7)
  qed
qed

lemma foldl_tuning_step:
  "step (foldl tuning s xs) = step s + 10 * int (length xs)"
  by (induction xs arbitrary: s) (simp_all add: tuning_def)

lemma max_metric_tuning: "max_metric (tuning s x) = max x (max_metric s)"
  by (simp add: tuning_def max_def)

lemma foldl_tuning_max:
  "max_metric (foldl tuning s xs) = Max (insert (max_metric s) (set xs))"
proof (induction xs rule: rev_induct)
  case Nil
  then show ?case by simp
next
  case (snoc x ys)
  have "insert (max_metric s) (set (ys @ [x])) = insert x (insert (max_metric s) (set ys))"
    by auto
  then have "Max (insert (max_metric s) (set (ys @ [x]))) = max x (Max (insert (max_metric s) (set ys)))"
    by (simp only: Max_insert [OF finite_insert [THEN iffD2, OF finite_set] insert_not_empty])
  with snoc show ?case by (simp add: max_metric_tuning)
qed

lemma foldl_tuning_first:
  "\<forall>x\<in>set xs. 0 \<le> x \<Longrightarrow>
   max_step (foldl tuning init_state xs) =
     10 + 10 * int (length (takeWhile (\<lambda>x. x \<noteq> Max (insert 0 (set xs))) xs))"
proof (induction xs rule: rev_induct)
  case Nil
  then show ?case by (simp add: init_state_def)
next
  case (snoc x ys)
  let ?t = "foldl tuning init_state ys"
  let ?m = "Max (insert 0 (set ys))"
  from snoc.prems have nn: "\<forall>y\<in>set ys. 0 \<le> y" "0 \<le> x" by simp_all
  from snoc.IH [OF nn(1)]
  have ih: "max_step ?t = 10 + 10 * int (length (takeWhile (\<lambda>y. y \<noteq> ?m) ys))" .
  have mm: "max_metric ?t = ?m"
    using foldl_tuning_max [of init_state ys] by (simp add: init_state_def)
  have st: "step ?t = 10 + 10 * int (length ys)"
    using foldl_tuning_step [of init_state ys] by (simp add: init_state_def)
  have "insert 0 (set (ys @ [x])) = insert x (insert 0 (set ys))"
    by auto
  then have new: "Max (insert 0 (set (ys @ [x]))) = max x ?m"
    by (simp only: Max_insert [OF finite_insert [THEN iffD2, OF finite_set] insert_not_empty])
  have le: "\<forall>y\<in>set ys. y \<le> ?m"
    by simp
  have lhs: "max_step (foldl tuning init_state (ys @ [x])) = max_step (tuning ?t x)"
    by simp
  show ?case
  proof (cases "?m < x")
    case True
    with le have "\<forall>y\<in>set ys. y \<noteq> x" by fastforce
    then have tw: "takeWhile (\<lambda>y. y \<noteq> x) (ys @ [x]) = ys"
      by (simp add: takeWhile_append2)
    from True have mx: "max x ?m = x" by simp
    from True mm st have "max_step (tuning ?t x) = 10 + 10 * int (length ys)"
      by (simp add: tuning_def)
    then show ?thesis unfolding new mx tw lhs .
  next
    case False
    then have keep: "max x ?m = ?m"
      unfolding not_less by (rule max_absorb2)
    have "\<not> max_metric ?t < x"
      unfolding mm by (rule False)
    then have same: "max_step (tuning ?t x) = max_step ?t"
      by (simp add: tuning_def)
    have "length (takeWhile (\<lambda>y. y \<noteq> ?m) (ys @ [x])) = length (takeWhile (\<lambda>y. y \<noteq> ?m) ys)"
    proof (cases "?m \<in> set ys")
      case True
      then show ?thesis by (simp add: takeWhile_append1)
    next
      case out: False
      have "?m \<in> insert 0 (set ys)"
        by (rule Max_in) simp_all
      with out have z: "?m = 0" by simp
      have "ys = []"
      proof (rule ccontr)
        assume "ys \<noteq> []"
        then obtain y where y: "y \<in> set ys" by (cases ys) auto
        with le nn(1) z have "y = 0" by fastforce
        with y z out show False by simp
      qed
      with z False nn(2) show ?thesis by simp
    qed
    then show ?thesis unfolding new keep lhs same using ih by simp
  qed
qed

lemma searching_run:
  "\<not> finished (final (run init_state (map sample xs))) \<Longrightarrow>
   final (run init_state (map sample xs)) = foldl tuning init_state xs"
proof (induction xs rule: rev_induct)
  case Nil
  then show ?case by simp
next
  case (snoc x ys)
  let ?s = "final (run init_state (map sample ys))"
  have fin: "final (run init_state (map sample (ys @ [x]))) = final (tick ?s (sample x))"
    by (rule run_samples_snoc [OF loop_inv_init])
  have inv: "loop_inv ?s"
    by (rule run_inv [OF loop_inv_init])
  then have r: "0 \<le> step ?s" "0 \<le> max_step ?s" "max_step ?s \<le> 1023"
    by (simp_all add: loop_inv_def)
  consider "dec_frames ?s < 6 \<and> step ?s < 1020"
    | "\<not> (dec_frames ?s < 6 \<and> step ?s < 1020)" "\<not> finished ?s"
    | "\<not> (dec_frames ?s < 6 \<and> step ?s < 1020)" "finished ?s"
    by blast
  then show ?case
  proof cases
    case 1
    with r have t: "final (tick ?s (sample x)) = tuning ?s x"
      by (simp add: tick_sample_tuning)
    with snoc.prems fin have "\<not> finished ?s" by (simp add: tuning_def)
    from snoc.IH [OF this] t fin show ?thesis by simp
  next
    case 2
    with r have "final (tick ?s (sample x)) = ?s\<lparr>finished := True\<rparr>"
      by (simp add: tick_sample_commit)
    with snoc.prems fin show ?thesis by simp
  next
    case 3
    then have "final (tick ?s (sample x)) = ?s"
      by (simp add: tick_sample_idle)
    with 3 snoc.prems fin show ?thesis by simp
  qed
qed

section \<open>The search controller\<close>

text \<open>
  C1. Take any sequence of non-negative scores fed, one frame each, to the loop in its
  initial state, such that the loop is still tuning after the last of them
  (\<open>finished\<close> is false, so every score went through the tuning branch). Then
  \<open>max_metric\<close> is the maximum of the scores and the initial 0, and \<open>max_step\<close>
  is the step commanded at the first occurrence of that maximum: the sweep starts at step
  10 and advances by 10, so this is 10 + 10 times the number of scores before it. A later
  score equal to the maximum does not move \<open>max_step\<close>.
\<close>

theorem best_tracking:
  assumes "\<forall>x\<in>set xs. 0 \<le> x"
    and "\<not> finished (final (run init_state (map sample xs)))"
  shows "max_metric (final (run init_state (map sample xs))) = Max (insert 0 (set xs)) \<and>
         max_step (final (run init_state (map sample xs))) =
           10 + 10 * int (length (takeWhile (\<lambda>x. x \<noteq> Max (insert 0 (set xs))) xs)) \<and>
         step (final (run init_state (map sample xs))) = 10 + 10 * int (length xs)"
proof -
  have run: "final (run init_state (map sample xs)) = foldl tuning init_state xs"
    using assms(2) by (rule searching_run)
  have "max_metric (foldl tuning init_state xs) = Max (insert 0 (set xs))"
    using foldl_tuning_max [of init_state xs] by (simp add: init_state_def)
  moreover have "step (foldl tuning init_state xs) = 10 + 10 * int (length xs)"
    using foldl_tuning_step [of init_state xs] by (simp add: init_state_def)
  ultimately show ?thesis
    unfolding run using foldl_tuning_first [OF assms(1)] by simp
qed

theorem best_tracking_witness:
  "list_all ((\<le>) 0) [3, 8, 5, 8, 2 :: real] \<and>
   \<not> finished (final (run init_state (map sample [3, 8, 5, 8, 2]))) \<and>
   max_metric (final (run init_state (map sample [3, 8, 5, 8, 2]))) = 8 \<and>
   max_step (final (run init_state (map sample [3, 8, 5, 8, 2]))) = 20 \<and>
   step (final (run init_state (map sample [3, 8, 5, 8, 2]))) = 60"
proof -
  have a: "\<forall>x\<in>set [3, 8, 5, 8, 2 :: real]. 0 \<le> x" by simp
  have b: "\<not> finished (final (run init_state (map sample [3, 8, 5, 8, 2])))"
    by (simp add: evals)
  from best_tracking [OF a b] b show ?thesis by simp
qed

text \<open>
  C2, as the code has it. In the tuning branch \<open>dec_frames\<close> goes up by one when the
  score is strictly below the previous one and is set to 0 otherwise, a tie included. On
  the scores 5, 8, 3, 2, 1, 0, 0 at steps 10 to 70 it is 4 after the step-60 frame and
  back to 0 after the step-70 frame, where 0 ties with 0; the loop is then still tuning,
  with \<open>max_step = 20\<close> and \<open>max_metric = 8\<close>.
\<close>

theorem decline_counting:
  "(dec_frames s < 6 \<and> step s < 1020 \<and> 0 \<le> step s \<longrightarrow>
      dec_frames (final (tick s (sample x))) =
        (if x < last_metric s then dec_frames s + 1 else 0)) \<and>
   final (run init_state (map sample [5, 8, 3, 2, 1, 0])) =
     \<lparr>max_step = 20, max_metric = 8, last_metric = 0, dec_frames = 4, step = 70,
      finished = False\<rparr> \<and>
   final (run init_state (map sample [5, 8, 3, 2, 1, 0, 0])) =
     \<lparr>max_step = 20, max_metric = 8, last_metric = 0, dec_frames = 0, step = 80,
      finished = False\<rparr>"
proof (intro conjI impI)
  assume "dec_frames s < 6 \<and> step s < 1020 \<and> 0 \<le> step s"
  then show "dec_frames (final (tick s (sample x))) =
      (if x < last_metric s then dec_frames s + 1 else 0)"
    by (simp add: tick_sample_tuning tuning_def)
next
  show "final (run init_state (map sample [5, 8, 3, 2, 1, 0])) =
     \<lparr>max_step = 20, max_metric = 8, last_metric = 0, dec_frames = 4, step = 70,
      finished = False\<rparr>"
    by (simp add: evals)
next
  show "final (run init_state (map sample [5, 8, 3, 2, 1, 0, 0])) =
     \<lparr>max_step = 20, max_metric = 8, last_metric = 0, dec_frames = 0, step = 80,
      finished = False\<rparr>"
    by (simp add: evals)
qed

theorem decline_counting_witness:
  "dec_frames \<lparr>max_step = 20, max_metric = 8, last_metric = 3, dec_frames = 1, step = 40,
      finished = False\<rparr> < 6 \<and>
   dec_frames (final (tick \<lparr>max_step = 20, max_metric = 8, last_metric = 3, dec_frames = 1,
      step = 40, finished = False\<rparr> (sample 3))) = 0 \<and>
   dec_frames (final (tick \<lparr>max_step = 20, max_metric = 8, last_metric = 3, dec_frames = 1,
      step = 40, finished = False\<rparr> (sample 2))) = 2"
  using decline_counting [of "\<lparr>max_step = 20, max_metric = 8, last_metric = 3, dec_frames = 1,
      step = 40, finished = False\<rparr>" 3]
    decline_counting [of "\<lparr>max_step = 20, max_metric = 8, last_metric = 3, dec_frames = 1,
      step = 40, finished = False\<rparr>" 2]
  by simp

text \<open>
  C2, as the claim words it, fails on its own scenario: after the seven frames
  \<open>dec_frames\<close> is 0, not 6, and the loop has not committed; it is still in the
  tuning branch.
\<close>

theorem decline_scenario_counterexample:
  "dec_frames (final (run init_state (map sample [5, 8, 3, 2, 1, 0, 0]))) \<noteq> 6 \<and>
   \<not> finished (final (run init_state (map sample [5, 8, 3, 2, 1, 0, 0]))) \<and>
   dec_frames (final (run init_state (map sample [5, 8, 3, 2, 1, 0, 0]))) < 6 \<and>
   step (final (run init_state (map sample [5, 8, 3, 2, 1, 0, 0]))) < 1020"
  by (simp add: evals)

text \<open>
  C3, as the code has it. Feed a strictly decreasing sequence of non-negative scores of
  length at least 8 to the loop in its initial state. The first score is not a decline
  (\<open>last_metric\<close> starts at 0), so \<open>dec_frames\<close> stays below 6 through
  the first six frames and reaches 6 at the seventh, after six declining scores; the
  commit happens on the next frame. So \<open>finished\<close> is false after each of the first
  seven frames and true after the eighth and every later one, and \<open>max_step\<close> is 10
  throughout, the step at which the first, highest score was taken.
\<close>

theorem decline_threshold:
  assumes "sorted_wrt (>) xs" and "\<forall>x\<in>set xs. 0 \<le> x" and "8 \<le> length xs"
    and "k \<le> length xs"
  shows "finished (final (run init_state (map sample (take k xs)))) = (8 \<le> k) \<and>
         max_step (final (run init_state (map sample (take k xs)))) = 10 \<and>
         (k < 7 \<longrightarrow> dec_frames (final (run init_state (map sample (take k xs)))) < 6) \<and>
         (7 \<le> k \<longrightarrow> dec_frames (final (run init_state (map sample (take k xs)))) = 6)"
  using assms by (rule decline_converges)

theorem decline_threshold_witness:
  "sorted_wrt (>) [9, 8, 7, 6, 5, 4, 3, 2, 1 :: real] \<and>
   list_all ((\<le>) 0) [9, 8, 7, 6, 5, 4, 3, 2, 1 :: real] \<and>
   8 \<le> length [9, 8, 7, 6, 5, 4, 3, 2, 1 :: real] \<and>
   finished (final (run init_state (map sample [9, 8, 7, 6, 5, 4, 3, 2]))) \<and>
   \<not> finished (final (run init_state (map sample [9, 8, 7, 6, 5, 4, 3]))) \<and>
   dec_frames (final (run init_state (map sample [9, 8, 7, 6, 5, 4, 3]))) = 6 \<and>
   max_step (final (run init_state (map sample [9, 8, 7, 6, 5, 4, 3, 2]))) = 10"
proof -
  have a: "sorted_wrt (>) [9, 8, 7, 6, 5, 4, 3, 2, 1 :: real]" by simp
  have b: "\<forall>x\<in>set [9, 8, 7, 6, 5, 4, 3, 2, 1 :: real]. 0 \<le> x" by simp
  have c: "8 \<le> length [9, 8, 7, 6, 5, 4, 3, 2, 1 :: real]" by simp
  have d: "8 \<le> length [9, 8, 7, 6, 5, 4, 3, 2, 1 :: real]"
    and e: "7 \<le> length [9, 8, 7, 6, 5, 4, 3, 2, 1 :: real]" by simp_all
  from decline_threshold [OF a b c d] decline_threshold [OF a b c e] a c
  show ?thesis by simp
qed

text \<open>
  C3, as the claim words it, fails for a sequence of length 6: after the six frames
  6, 5, 4, 3, 2, 1 only five declines have been counted, the loop has not committed and
  the tuning branch is still open.
\<close>

theorem decline_threshold_counterexample:
  "sorted_wrt (>) [6, 5, 4, 3, 2, 1 :: real] \<and> list_all ((\<le>) 0) [6, 5, 4, 3, 2, 1 :: real] \<and>
   6 \<le> length [6, 5, 4, 3, 2, 1 :: real] \<and>
   \<not> finished (final (run init_state (map sample [6, 5, 4, 3, 2, 1]))) \<and>
   dec_frames (final (run init_state (map sample [6, 5, 4, 3, 2, 1]))) = 5 \<and>
   step (final (run init_state (map sample [6, 5, 4, 3, 2, 1]))) < 1020"
  by (simp add: evals)

text \<open>
  C4. From the initial state, with the same score on every frame, the step reaches 1020
  after 101 frames and the commit happens on the next one: \<open>finished\<close> holds after
  \<open>n\<close> frames exactly when \<open>n\<close> is at least 102, and the step is then held at
  1020. Every \<open>set_focus\<close> call of the run, the commit (to \<open>max_step = 10\<close>)
  included, has an argument between 10 and 1010, so none exceeds 1020.
\<close>

theorem safety_bound:
  "finished (final (run init_state (replicate n (sample c)))) = (102 \<le> n) \<and>
   step (final (run init_state (replicate n (sample c)))) = min (10 + 10 * int n) 1020 \<and>
   max_step (final (run init_state (replicate n (sample c)))) = 10 \<and>
   (\<forall>k. Focus_call k \<in> set (trace (run init_state (replicate n (sample c)))) \<longrightarrow>
        10 \<le> k \<and> k \<le> 1010 \<and> k \<le> 1020) \<and>
   stopped (run init_state (replicate n (sample c))) = None"
proof -
  have calls: "Focus_call k \<in> set (trace (run init_state (replicate n (sample c)))) \<Longrightarrow>
      10 \<le> k \<and> k \<le> 1010 \<and> k \<le> 1020" for k
    using run_calls [OF loop_inv_init, of k "replicate n (sample c)"] by simp
  have "stopped (run init_state (replicate n (sample c))) = None"
    using run_samples_continue [OF loop_inv_init, of "replicate n c"] by simp
  with calls constant_sweep_finished [of n c] show ?thesis by blast
qed

theorem safety_bound_witness:
  "finished (final (run init_state (replicate 102 (sample 5)))) \<and>
   \<not> finished (final (run init_state (replicate 101 (sample 5)))) \<and>
   step (final (run init_state (replicate 101 (sample 5)))) = 1020 \<and>
   Focus_call 1030 \<notin> set (trace (run init_state (replicate 102 (sample 5))))"
  using safety_bound [of 102 5] safety_bound [of 101 5]
  by (auto simp del: run.simps replicate.simps)

section \<open>The trace of a search session\<close>










lemma session_event_append_commands:
  "foldl session_event acc [Focus_call k, I2cset a b] = acc @ [Focus_call k, I2cset a b]"
  by simp






text \<open>
  C8 on the code. When \<open>i2cset\<close> fails during the sweep, the loop prints the
  error and breaks. When it fails on the commit, \<open>set_focus(max_step)\<close> is not
  inside a \<open>try\<close>: after seven declining frames, a failing commit leaves
  \<open>autofocus_demo\<close> through the exception, and the script has printed nothing.
\<close>

theorem commit_failure_uncaught:
  "run init_state [\<lparr>window_open = True, ret = True, sharp = 7, i2c_ok = False, key = - 1\<rparr>] =
     (init_state,
      [Focus_call 10, I2cset 0 160, Print (I2C_error (CalledProcessError 0 160))],
      Some I2C_break) \<and>
   run init_state
     (map sample [7, 6, 5, 4, 3, 2, 1] @
      [\<lparr>window_open = True, ret = True, sharp = 0, i2c_ok = False, key = - 1\<rparr>]) =
     (\<lparr>max_step = 10, max_metric = 7, last_metric = 1, dec_frames = 6, step = 80,
       finished = False\<rparr>,
      [Focus_call 10, I2cset 0 160, Focus_call 20, I2cset 1 64, Focus_call 30, I2cset 1 224,
       Focus_call 40, I2cset 2 128, Focus_call 50, I2cset 3 32, Focus_call 60, I2cset 3 192,
       Focus_call 70, I2cset 4 96, Focus_call 10, I2cset 0 160],
      Some (Uncaught (CalledProcessError 0 160)))"
  by (simp add: evals)

text \<open>
  C10. The bounds \<open>loop_inv\<close> (step and max_step multiples of 10,
  \<open>10 \<le> max_step \<le> step \<le> 1020\<close>, \<open>max_step \<le> 1010\<close>,
  \<open>0 \<le> dec_frames \<le> 6\<close>) hold initially and are kept by every iteration of
  the loop, whatever the inputs, a restart included. In a state that satisfies them every
  \<open>set_focus\<close> call of the iteration has its argument in [0, 1023] and the
  iteration does not end in the range error. So this holds along every run from the
  initial state.
\<close>

theorem loop_invariant:
  "loop_inv init_state \<and>
   (loop_inv s \<longrightarrow>
      loop_inv (final (tick s i)) \<and>
      (\<forall>k. Focus_call k \<in> set (trace (tick s i)) \<longrightarrow> 0 \<le> k \<and> k \<le> 1023) \<and>
      stopped (tick s i) \<noteq> Some (Uncaught ValueError)) \<and>
   loop_inv (final (run init_state is)) \<and>
   (\<forall>k. Focus_call k \<in> set (trace (run init_state is)) \<longrightarrow> 0 \<le> k \<and> k \<le> 1023) \<and>
   stopped (run init_state is) \<noteq> Some (Uncaught ValueError)"
proof -
  have a: "loop_inv s \<Longrightarrow> Focus_call k \<in> set (trace (tick s i)) \<Longrightarrow> 0 \<le> k \<and> k \<le> 1023" for k
    using tick_calls [of s k i] by simp
  have b: "Focus_call k \<in> set (trace (run init_state is)) \<Longrightarrow> 0 \<le> k \<and> k \<le> 1023" for k
    using run_calls [OF loop_inv_init, of k "is"] by simp
  show ?thesis
    using a b by (simp add: loop_inv_init tick_inv tick_no_ValueError run_inv run_no_ValueError)
qed

theorem loop_invariant_witness:
  "loop_inv \<lparr>max_step = 1010, max_metric = 4, last_metric = 4, dec_frames = 0, step = 1010,
      finished = False\<rparr> \<and>
   final (tick \<lparr>max_step = 1010, max_metric = 4, last_metric = 4, dec_frames = 0, step = 1010,
      finished = False\<rparr> (sample 5)) =
     \<lparr>max_step = 1010, max_metric = 5, last_metric = 5, dec_frames = 0, step = 1020,
      finished = False\<rparr> \<and>
   loop_inv (final (tick \<lparr>max_step = 1010, max_metric = 4, last_metric = 4, dec_frames = 0,
      step = 1010, finished = False\<rparr> (sample 5))) \<and>
   loop_inv (final (tick \<lparr>max_step = 1010, max_metric = 4, last_metric = 4, dec_frames = 0,
      step = 1010, finished = False\<rparr>
      \<lparr>window_open = True, ret = True, sharp = 5, i2c_ok = True, key = 114\<rparr>)) \<and>
   Focus_call 1024 \<notin> set (trace (tick \<lparr>max_step = 1010, max_metric = 4, last_metric = 4,
      dec_frames = 0, step = 1010, finished = False\<rparr> (sample 5)))"
proof -
  let ?s = "\<lparr>max_step = 1010, max_metric = 4, last_metric = 4, dec_frames = 0, step = 1010,
      finished = False\<rparr>"
  have a: "loop_inv ?s" by (simp add: loop_inv_def)
  have b: "final (tick ?s (sample 5)) =
     \<lparr>max_step = 1010, max_metric = 5, last_metric = 5, dec_frames = 0, step = 1020,
      finished = False\<rparr>"
    by (simp add: evals)
  from loop_invariant [of ?s "sample 5" "[]"]
    loop_invariant [of ?s "\<lparr>window_open = True, ret = True, sharp = 5, i2c_ok = True, key = 114\<rparr>" "[]"]
    a b
  show ?thesis by auto
qed

end
